theory Spec2Isabelle
  imports Main "HOL-Library.Word"
begin

unbundle bit_operations_syntax

section \<open>JavaScript number operations used by the relay\<close>

text \<open>
  The decoder of \<^verbatim>\<open>server.js\<close> works on JavaScript numbers. Every value it handles is an
  integer far below \<open>2^53\<close>, so numbers are modelled as \<open>int\<close>: \<^verbatim>\<open>+\<close> and \<^verbatim>\<open>-\<close> are
  exact, while the bitwise operators first convert their operands to 32-bit two's
  complement (ToInt32), work there, and give back a signed 32-bit value. A shift uses
  only the low five bits of its count. A store into an \<^verbatim>\<open>Int16Array\<close> keeps the low 16
  bits, read as signed (ToInt16).
\<close>

type_synonym byte = "8 word"

definition js_not :: "int \<Rightarrow> int" where
  "js_not x = sint (NOT (word_of_int x :: 32 word))"

definition js_and :: "int \<Rightarrow> int \<Rightarrow> int" where
  "js_and x y = sint ((word_of_int x :: 32 word) AND word_of_int y)"

definition shift_count :: "int \<Rightarrow> nat" where
  "shift_count n = unat ((word_of_int n :: 32 word) AND 31)"

definition js_shl :: "int \<Rightarrow> int \<Rightarrow> int" where
  "js_shl x n = sint (push_bit (shift_count n) (word_of_int x :: 32 word))"

definition js_sar :: "int \<Rightarrow> int \<Rightarrow> int" where
  "js_sar x n = sint (signed_drop_bit (shift_count n) (word_of_int x :: 32 word))"

definition toInt16 :: "int \<Rightarrow> int" where
  "toInt16 x = sint (word_of_int x :: 16 word)"

section \<open>The \<open>\<mu>\<close>-law decoder\<close>

text \<open>
  The body of the \<^verbatim>\<open>for\<close> loop of \<^verbatim>\<open>decodeMuLawToPCM16\<close>, for one element of the input
  buffer. \<open>decode_value\<close> is the value of the conditional expression on the right of
  the assignment \<^verbatim>\<open>pcm16[i] = ...\<close>; \<open>decodeSample\<close> is what the \<^verbatim>\<open>Int16Array\<close> then holds.
\<close>

definition decode_value :: "byte \<Rightarrow> int" where
  "decode_value b =
     (let mulaw = uint b;
          mulaw = js_not mulaw;
          t = js_shl (js_and mulaw 0xF) 3 + 0x84;
          t = js_shl t (js_sar (js_and mulaw 0x70) 4)
      in if js_and mulaw 0x80 \<noteq> 0 then 0x84 - t else t - 0x84)"

definition decodeSample :: "byte \<Rightarrow> int" where
  "decodeSample b = toInt16 (decode_value b)"

text \<open>
  The loop itself: \<open>i\<close> runs from 0 to the length of the input, and each round stores one
  sample at index \<open>i\<close> of the output array, which starts out zero-filled.
\<close>

function decode_loop :: "nat \<Rightarrow> byte list \<Rightarrow> int list \<Rightarrow> int list" where
  "decode_loop i mulawData pcm16 =
     (if i < length mulawData
      then decode_loop (i + 1) mulawData (pcm16[i := decodeSample (mulawData ! i)])
      else pcm16)"
  by pat_completeness auto
termination
  by (relation "measure (\<lambda>(i, mulawData, pcm16). length mulawData - i)") auto

declare decode_loop.simps [simp del]

definition decodeMuLawToPCM16 :: "byte list \<Rightarrow> int list" where
  "decodeMuLawToPCM16 mulawData = decode_loop 0 mulawData (replicate (length mulawData) 0)"

text \<open>
  The expansion as the specification words it: invert the byte, take the low four bits as
  mantissa and bits 4 to 6 as exponent, and rebuild the magnitude with unbounded shifts.
\<close>

definition g711_magnitude :: "byte \<Rightarrow> int" where
  "g711_magnitude b =
     (let u = NOT b;
          mantissa = uint (u AND 0xF);
          exponent = unat (drop_bit 4 u AND 7)
      in push_bit exponent (push_bit 3 mantissa + 0x84) - 0x84)"

section \<open>Packing the samples\<close>

datatype error = TypeError | RangeError | SdkError

text \<open>
  \<^verbatim>\<open>Buffer.allocUnsafe(n)\<close> gives \<open>n\<close> bytes of whatever the memory held; \<open>junk\<close> stands
  for that content.
\<close>

definition allocUnsafe :: "(nat \<Rightarrow> byte) \<Rightarrow> nat \<Rightarrow> byte list" where
  "allocUnsafe junk n = map junk [0..<n]"

text \<open>
  \<^verbatim>\<open>buf.writeInt16LE(value, offset)\<close> of Node: a value outside the signed 16-bit range or
  an offset that leaves no room for two bytes raises a range error; otherwise the low
  byte goes to \<open>offset\<close> and the high byte to \<open>offset + 1\<close>.
\<close>

definition writeInt16LE :: "byte list \<Rightarrow> int \<Rightarrow> nat \<Rightarrow> error + byte list" where
  "writeInt16LE buf v off =
     (if v < - 32768 \<or> 32767 < v then Inl RangeError
      else if length buf < off + 2 then Inl RangeError
      else Inr (buf[off := word_of_int v, off + 1 := word_of_int (v div 256)]))"

text \<open>The loop \<^verbatim>\<open>for (let i = 0; i < pcm16.length; i++) buf.writeInt16LE(pcm16[i], i * 2)\<close>.\<close>

function pack_loop :: "nat \<Rightarrow> int list \<Rightarrow> byte list \<Rightarrow> error + byte list" where
  "pack_loop i pcm16 buf =
     (if i < length pcm16
      then (case writeInt16LE buf (pcm16 ! i) (i * 2) of
              Inl e \<Rightarrow> Inl e
            | Inr buf' \<Rightarrow> pack_loop (i + 1) pcm16 buf')
      else Inr buf)"
  by pat_completeness auto
termination
  by (relation "measure (\<lambda>(i, pcm16, buf). length pcm16 - i)") auto

declare pack_loop.simps [simp del]

text \<open>One 16-bit sample as two bytes, low byte first.\<close>

definition le16 :: "int \<Rightarrow> byte list" where
  "le16 v = [word_of_int v, word_of_int (v div 256)]"

section \<open>Messages\<close>

text \<open>
  A text frame is handed to \<^verbatim>\<open>JSON.parse\<close>. What comes back is a JSON value; an object
  is the list of its properties, each name once. Only the truth value of a number is
  ever looked at, so numbers are kept as integers.
\<close>

datatype json =
    JNull
  | JBool bool
  | JNum int
  | JStr string
  | JArr "json list"
  | JObj "(string \<times> json) list"

text \<open>The result of reading a property is a value or \<^verbatim>\<open>undefined\<close> (\<open>None\<close>).\<close>

fun truthy :: "json option \<Rightarrow> bool" where
  "truthy None = False"
| "truthy (Some JNull) = False"
| "truthy (Some (JBool b)) = b"
| "truthy (Some (JNum n)) = (n \<noteq> 0)"
| "truthy (Some (JStr s)) = (s \<noteq> [])"
| "truthy (Some (JArr xs)) = True"
| "truthy (Some (JObj kvs)) = True"

text \<open>
  \<^verbatim>\<open>v.k\<close> for the names the handler reads (\<^verbatim>\<open>event\<close>, \<^verbatim>\<open>start\<close>, \<^verbatim>\<open>media\<close>), none of which
  a string, number, boolean or array has: reading a property of \<^verbatim>\<open>null\<close> raises a type
  error.
\<close>

fun get :: "json \<Rightarrow> string \<Rightarrow> error + json option" where
  "get JNull k = Inl TypeError"
| "get (JObj kvs) k = Inr (map_of kvs k)"
| "get v k = Inr None"

text \<open>\<^verbatim>\<open>v?.k\<close> (for \<^verbatim>\<open>callSid\<close> and \<^verbatim>\<open>payload\<close>): \<^verbatim>\<open>undefined\<close> when \<open>v\<close> is \<^verbatim>\<open>undefined\<close> or \<^verbatim>\<open>null\<close>.\<close>

fun opt_get :: "json option \<Rightarrow> string \<Rightarrow> json option" where
  "opt_get None k = None"
| "opt_get (Some JNull) k = None"
| "opt_get (Some (JObj kvs)) k = map_of kvs k"
| "opt_get (Some v) k = None"

text \<open>\<^verbatim>\<open>v || ""\<close>.\<close>

fun or_empty :: "json option \<Rightarrow> json" where
  "or_empty None = JStr []"
| "or_empty (Some v) = (if truthy (Some v) then v else JStr [])"

section \<open>The call session and what surrounds it\<close>

text \<open>
  The calls the connection handler makes on objects it does not own: the speech SDK, the
  WebSocket and \<^verbatim>\<open>fetch\<close>. An SDK object is named by a number, given to it when it is
  created. \<open>Fetch url callSid text timestamp\<close> is the POST to the webhook.
\<close>

datatype call =
    CreatePushStream nat
  | NewRecognizer nat nat
  | StartContinuous nat
  | PushWrite nat "byte list"
  | PushClose nat
  | StopContinuous nat
  | RecClose nat
  | WsClose
  | Fetch string json string string

datatype log =
    LogConnected
  | LogStreamStarted json
  | LogStopReceived
  | LogWsClosed
  | LogInterim string
  | LogFinal string
  | LogDebounce
  | LogPostError string

text \<open>
  What the handlers take from outside the source file: the webhook URL \<^verbatim>\<open>N8N\<close> (empty
  when the process was started without one), \<^verbatim>\<open>Buffer.from(v, "base64")\<close>, whether a call
  throws (decided by the callee, given the calls made so far), and the content of
  unwritten memory.
\<close>

record env =
  N8N :: string
  bufferFrom :: "json \<Rightarrow> error + byte list"
  throws :: "call \<Rightarrow> (call \<times> bool) list \<Rightarrow> bool"
  junk :: "nat \<Rightarrow> byte"

text \<open>The four variables of the connection closure.\<close>

record session =
  callSid :: json
  rec :: "nat option"
  pushStream :: "nat option"
  lastSentTime :: int

text \<open>Every call made so far, each with whether it threw, and the console output.\<close>

record world =
  calls :: "(call \<times> bool) list"
  console :: "log list"

datatype outcome = Done | Raised error

type_synonym result = "outcome \<times> session \<times> world"

definition invoke :: "env \<Rightarrow> call \<Rightarrow> session \<Rightarrow> world \<Rightarrow> result" where
  "invoke env c s w =
     (let t = throws env c (calls w)
      in (if t then Raised SdkError else Done, s, w\<lparr>calls := calls w @ [(c, t)]\<rparr>))"

definition say :: "log \<Rightarrow> world \<Rightarrow> world" where
  "say l w = w\<lparr>console := console w @ [l]\<rparr>"

definition init_session :: session where
  "init_session = \<lparr>callSid = JStr [], rec = None, pushStream = None, lastSentTime = 0\<rparr>"

definition init_world :: world where
  "init_world = \<lparr>calls = [], console = [LogConnected]\<rparr>"

section \<open>The handlers\<close>

text \<open>
  \<^verbatim>\<open>startRecognizer\<close>: a new push stream is created and stored in \<^verbatim>\<open>pushStream\<close>, a new
  recognizer on that stream is created and stored in \<^verbatim>\<open>rec\<close>, and continuous recognition is
  started. Whatever the two variables held before is overwritten. The configuration and
  format objects are plain values and leave no trace here.
\<close>

definition startRecognizer :: "env \<Rightarrow> session \<Rightarrow> world \<Rightarrow> result" where
  "startRecognizer env s w =
     (let p = length (calls w) in
      case invoke env (CreatePushStream p) s w of
        (Raised e, s1, w1) \<Rightarrow> (Raised e, s1, w1)
      | (Done, s1, w1) \<Rightarrow>
          (let s2 = s1\<lparr>pushStream := Some p\<rparr>; r = length (calls w1) in
           case invoke env (NewRecognizer r p) s2 w1 of
             (Raised e, s3, w3) \<Rightarrow> (Raised e, s3, w3)
           | (Done, s3, w3) \<Rightarrow> invoke env (StartContinuous r) (s3\<lparr>rec := Some r\<rparr>) w3))"

text \<open>The \<^verbatim>\<open>start\<close> case of the message handler.\<close>

definition on_start :: "env \<Rightarrow> json \<Rightarrow> session \<Rightarrow> world \<Rightarrow> result" where
  "on_start env data s w =
     (case get data ''start'' of
        Inl e \<Rightarrow> (Raised e, s, w)
      | Inr st \<Rightarrow>
          (let s1 = s\<lparr>callSid := or_empty (opt_get st ''callSid'')\<rparr>
           in startRecognizer env s1 (say (LogStreamStarted (callSid s1)) w)))"

text \<open>
  The \<^verbatim>\<open>media\<close> case: nothing happens without a push stream or without a truthy payload;
  otherwise the payload is decoded, packed and written to the push stream.
\<close>

definition on_media :: "env \<Rightarrow> json \<Rightarrow> session \<Rightarrow> world \<Rightarrow> result" where
  "on_media env data s w =
     (case pushStream s of
        None \<Rightarrow> (Done, s, w)
      | Some p \<Rightarrow>
          (case get data ''media'' of
             Inl e \<Rightarrow> (Raised e, s, w)
           | Inr m \<Rightarrow>
               (case opt_get m ''payload'' of
                  None \<Rightarrow> (Done, s, w)
                | Some payload \<Rightarrow>
                    if \<not> truthy (Some payload) then (Done, s, w)
                    else
                      (case bufferFrom env payload of
                         Inl e \<Rightarrow> (Raised e, s, w)
                       | Inr ulaw \<Rightarrow>
                           (let pcm16 = decodeMuLawToPCM16 ulaw;
                                buf = allocUnsafe (junk env) (length pcm16 * 2)
                            in case pack_loop 0 pcm16 buf of
                                 Inl e \<Rightarrow> (Raised e, s, w)
                               | Inr buf' \<Rightarrow> invoke env (PushWrite p buf') s w)))))"

text \<open>The \<^verbatim>\<open>stop\<close> case: the socket is closed from this side.\<close>

definition on_stop :: "env \<Rightarrow> session \<Rightarrow> world \<Rightarrow> result" where
  "on_stop env s w = invoke env WsClose s (say LogStopReceived w)"

text \<open>
  The message handler. \<open>parsed\<close> is what \<^verbatim>\<open>JSON.parse(raw.toString())\<close> gave: \<open>None\<close> when
  it threw, which the handler catches. The \<^verbatim>\<open>switch\<close> compares \<^verbatim>\<open>data.event\<close> with the
  three strings and has no default case.
\<close>

definition on_message :: "env \<Rightarrow> json option \<Rightarrow> session \<Rightarrow> world \<Rightarrow> result" where
  "on_message env parsed s w =
     (case parsed of
        None \<Rightarrow> (Done, s, w)
      | Some data \<Rightarrow>
          (case get data ''event'' of
             Inl e \<Rightarrow> (Raised e, s, w)
           | Inr ev \<Rightarrow>
               if ev = Some (JStr ''start'') then on_start env data s w
               else if ev = Some (JStr ''media'') then on_media env data s w
               else if ev = Some (JStr ''stop'') then on_stop env s w
               else (Done, s, w)))"

text \<open>
  The close handler. Each of its two statements sits in a \<^verbatim>\<open>try\<close> with an empty
  \<^verbatim>\<open>catch\<close>. The variables are read, never cleared.
\<close>

definition try_catch :: "result \<Rightarrow> result" where
  "try_catch r = (case r of (out, s, w) \<Rightarrow> (Done, s, w))"

definition pushStream_close :: "env \<Rightarrow> session \<Rightarrow> world \<Rightarrow> result" where
  "pushStream_close env s w =
     (case pushStream s of None \<Rightarrow> (Done, s, w) | Some p \<Rightarrow> invoke env (PushClose p) s w)"

definition rec_stop :: "env \<Rightarrow> session \<Rightarrow> world \<Rightarrow> result" where
  "rec_stop env s w =
     (case rec s of None \<Rightarrow> (Done, s, w) | Some r \<Rightarrow> invoke env (StopContinuous r) s w)"

definition on_close :: "env \<Rightarrow> session \<Rightarrow> world \<Rightarrow> result" where
  "on_close env s w =
     (case try_catch (pushStream_close env s (say LogWsClosed w)) of
        (out, s1, w1) \<Rightarrow> try_catch (rec_stop env s1 w1))"

text \<open>
  The two callbacks given to \<^verbatim>\<open>stopContinuousRecognitionAsync\<close>, both \<^verbatim>\<open>() => rec.close()\<close>.
  They run later, outside the \<^verbatim>\<open>try\<close>, and read \<^verbatim>\<open>rec\<close> at that time.
\<close>

definition on_stop_success :: "env \<Rightarrow> session \<Rightarrow> world \<Rightarrow> result" where
  "on_stop_success env s w =
     (case rec s of None \<Rightarrow> (Raised TypeError, s, w) | Some r \<Rightarrow> invoke env (RecClose r) s w)"

definition on_stop_failure :: "env \<Rightarrow> session \<Rightarrow> world \<Rightarrow> result" where
  "on_stop_failure env s w =
     (case rec s of None \<Rightarrow> (Raised TypeError, s, w) | Some r \<Rightarrow> invoke env (RecClose r) s w)"

text \<open>
  A recognition event \<open>e\<close>: \<open>None\<close> when \<^verbatim>\<open>e.result\<close> is missing, \<open>Some None\<close> when the
  result has no text. \<open>result_text\<close> is \<^verbatim>\<open>e.result?.text\<close>.
\<close>

type_synonym recognition_event = "string option option"

definition result_text :: "recognition_event \<Rightarrow> string option" where
  "result_text e = (case e of None \<Rightarrow> None | Some r \<Rightarrow> r)"

text \<open>The handler of interim results.\<close>

definition recognizing :: "recognition_event \<Rightarrow> session \<Rightarrow> world \<Rightarrow> result" where
  "recognizing e s w =
     (case result_text e of
        None \<Rightarrow> (Done, s, w)
      | Some t \<Rightarrow> if t \<noteq> [] then (Done, s, say (LogInterim t) w) else (Done, s, w))"

text \<open>
  The handler of final results, up to its \<^verbatim>\<open>await\<close>: \<open>now\<close> is what \<^verbatim>\<open>Date.now()\<close> gave
  and \<open>stamp\<close> what \<^verbatim>\<open>new Date().toISOString()\<close> gave. \<^verbatim>\<open>fetch\<close> hands back a promise, so
  the call itself does not throw; how the request ends is a later event.
\<close>

definition recognized :: "env \<Rightarrow> recognition_event \<Rightarrow> int \<Rightarrow> string \<Rightarrow> session \<Rightarrow> world \<Rightarrow> result" where
  "recognized env e now stamp s w =
     (case result_text e of
        None \<Rightarrow> (Done, s, w)
      | Some t \<Rightarrow>
          if t = [] then (Done, s, w)
          else
            (let w1 = say (LogFinal t) w in
             if now - lastSentTime s < 2000 then (Done, s, say LogDebounce w1)
             else
               (let s1 = s\<lparr>lastSentTime := now\<rparr> in
                if N8N env \<noteq> []
                then (Done, s1, w1\<lparr>calls := calls w1 @ [(Fetch (N8N env) (callSid s1) t stamp, False)]\<rparr>)
                else (Done, s1, w1))))"

text \<open>The rest of that handler, once the request has ended: a failure is logged.\<close>

datatype fetch_outcome = FetchOk | FetchFailed string

definition fetch_settled :: "fetch_outcome \<Rightarrow> session \<Rightarrow> world \<Rightarrow> result" where
  "fetch_settled fo s w =
     (case fo of FetchOk \<Rightarrow> (Done, s, w) | FetchFailed msg \<Rightarrow> (Done, s, say (LogPostError msg) w))"

section \<open>One connection\<close>

text \<open>
  What can happen on one connection, one event at a time: each handler runs to its end
  before the next event is taken. The callbacks that only write to the console (start
  of recognition, cancellation, end of the recognizer's session, socket error) touch
  neither the session nor any other object and are left out.
\<close>

datatype input =
    Message "json option"
  | Close
  | Recognizing recognition_event
  | Recognized recognition_event int string
  | FetchSettled fetch_outcome
  | StopSucceeded
  | StopFailed

fun step :: "env \<Rightarrow> input \<Rightarrow> session \<Rightarrow> world \<Rightarrow> result" where
  "step env (Message parsed) s w = on_message env parsed s w"
| "step env Close s w = on_close env s w"
| "step env (Recognizing e) s w = recognizing e s w"
| "step env (Recognized e now stamp) s w = recognized env e now stamp s w"
| "step env (FetchSettled fo) s w = fetch_settled fo s w"
| "step env StopSucceeded s w = on_stop_success env s w"
| "step env StopFailed s w = on_stop_failure env s w"

text \<open>A run ends at the first handler that raises.\<close>

fun run :: "env \<Rightarrow> input list \<Rightarrow> session \<Rightarrow> world \<Rightarrow> result" where
  "run env [] s w = (Done, s, w)"
| "run env (i # inputs) s w =
     (case step env i s w of
        (Raised e, s', w') \<Rightarrow> (Raised e, s', w')
      | (Done, s', w') \<Rightarrow> run env inputs s' w')"

text \<open>What a run leaves behind, read off the calls.\<close>

definition made :: "world \<Rightarrow> call list" where
  "made w = map fst (calls w)"

definition times_called :: "call \<Rightarrow> world \<Rightarrow> nat" where
  "times_called c w = length (filter (\<lambda>x. x = c) (made w))"

fun is_NewRecognizer :: "call \<Rightarrow> nat option" where
  "is_NewRecognizer (NewRecognizer r p) = Some r"
| "is_NewRecognizer c = None"

definition live_recognizers :: "world \<Rightarrow> nat list" where
  "live_recognizers w =
     filter (\<lambda>r. times_called (RecClose r) w = 0) (List.map_filter is_NewRecognizer (made w))"

fun is_Fetch :: "call \<Rightarrow> bool" where
  "is_Fetch (Fetch url sid text stamp) = True"
| "is_Fetch c = False"

definition forwarded :: "world \<Rightarrow> call list" where
  "forwarded w = filter is_Fetch (made w)"

fun is_PushWrite :: "call \<Rightarrow> bool" where
  "is_PushWrite (PushWrite p buf) = True"
| "is_PushWrite c = False"

definition fed :: "world \<Rightarrow> call list" where
  "fed w = filter is_PushWrite (made w)"

text \<open>
  Sample surroundings for running the handlers on concrete input: no call throws, and
  \<^verbatim>\<open>Buffer.from\<close> knows the base64 text \<^verbatim>\<open>/4A=\<close> of the two bytes \<open>0xFF\<close>, \<open>0x80\<close>.
\<close>

definition sample_bufferFrom :: "json \<Rightarrow> error + byte list" where
  "sample_bufferFrom v = (if v = JStr ''/4A='' then Inr [0xFF, 0x80] else Inl TypeError)"

definition sample_env :: "string \<Rightarrow> env" where
  "sample_env url =
     \<lparr>N8N = url, bufferFrom = sample_bufferFrom, throws = (\<lambda>c cs. False), junk = (\<lambda>i. 0)\<rparr>"

definition start_data :: "string \<Rightarrow> json" where
  "start_data sid = JObj [(''event'', JStr ''start''), (''start'', JObj [(''callSid'', JStr sid)])]"

definition media_data :: "string \<Rightarrow> json" where
  "media_data payload = JObj [(''event'', JStr ''media''), (''media'', JObj [(''payload'', JStr payload)])]"

definition start_msg :: "string \<Rightarrow> input" where
  "start_msg sid = Message (Some (start_data sid))"

definition media_msg :: "string \<Rightarrow> input" where
  "media_msg payload = Message (Some (media_data payload))"

text \<open>The session and the surroundings after one \<^verbatim>\<open>start\<close> message for the call \<^verbatim>\<open>CA123\<close>.\<close>

definition started_session :: session where
  "started_session = \<lparr>callSid = JStr ''CA123'', rec = Some 1, pushStream = Some 0, lastSentTime = 0\<rparr>"

definition started_world :: world where
  "started_world =
     \<lparr>calls = [(CreatePushStream 0, False), (NewRecognizer 1 0, False), (StartContinuous 1, False)],
      console = [LogConnected, LogStreamStarted (JStr ''CA123'')]\<rparr>"



section \<open>Notions used to state the properties\<close>

text \<open>
  The bytes the specification expects on the audio sink for one frame: the decoded
  samples in the order of the input bytes, two bytes each, low byte first.
\<close>

definition pcm_bytes :: "byte list \<Rightarrow> byte list" where
  "pcm_bytes ulaw = concat (map (\<lambda>b. le16 (decodeSample b)) ulaw)"



text \<open>
  The requests that an accepted final result sends to the webhook: one when a URL is
  configured, none otherwise.
\<close>

definition posts :: "env \<Rightarrow> json \<Rightarrow> string \<Rightarrow> string \<Rightarrow> call list" where
  "posts env sid t stamp = (if N8N env = [] then [] else [Fetch (N8N env) sid t stamp])"

text \<open>
  An event of the connection that is not an accepted final result, when the last accepted
  send was at \<open>sent\<close>: a final result counts only if it has text and comes 2000 ms or
  more after \<open>sent\<close>.
\<close>

fun not_accepted :: "int \<Rightarrow> input \<Rightarrow> bool" where
  "not_accepted sent (Recognized e now stamp) =
     (case result_text e of None \<Rightarrow> True | Some t \<Rightarrow> t = [] \<or> now - sent < 2000)"
| "not_accepted sent i = True"

text \<open>A property of bytes can be checked on the 256 values one after the other.\<close>

definition all_bytes :: "(byte \<Rightarrow> bool) \<Rightarrow> bool" where
  "all_bytes P = (P 0 \<and> P 1 \<and> list_all (\<lambda>i. P (word_of_int i)) [2..255])"

section \<open>Facts about the decoder\<close>

lemma all_bytesD:
  assumes "all_bytes P"
  shows "P b"
proof -
  have "0 \<le> uint b" "uint b < 256"
    using uint_bounded [of b] by simp_all
  then have "uint b = 0 \<or> uint b = 1 \<or> uint b \<in> {2..255}"
    unfolding atLeastAtMost_iff by linarith
  moreover have "P (word_of_int i)" if "i \<in> {2..255}" for i
    using assms that unfolding all_bytes_def list_all_iff set_upto by blast
  moreover have "P (word_of_int 0)" "P (word_of_int 1)"
    using assms unfolding all_bytes_def by simp_all
  ultimately have "P (word_of_int (uint b))"
    by metis
  then show ?thesis
    by simp
qed


lemma toInt16_id: "- 32768 \<le> v \<Longrightarrow> v \<le> 32767 \<Longrightarrow> toInt16 v = v"
  unfolding toInt16_def
  by (simp add: sint_sbintrunc' signed_take_bit_int_eq_self)

lemmas js_ops = js_not_def js_and_def js_shl_def js_sar_def shift_count_def


lemma decode_value_sweep:
  "all_bytes (\<lambda>b. - 32124 \<le> decode_value b \<and> decode_value b \<le> 32124
     \<and> (if bit b 7 then 0 \<le> decode_value b else decode_value b \<le> 0))"
  unfolding all_bytes_def
proof (intro conjI)
  show "list_all (\<lambda>i. - 32124 \<le> decode_value (word_of_int i) \<and> decode_value (word_of_int i) \<le> 32124
     \<and> (if bit (word_of_int i :: byte) 7 then 0 \<le> decode_value (word_of_int i) else decode_value (word_of_int i) \<le> 0)) [2..255]"
    by (simp add: decode_value_def js_ops Let_def bit_numeral_word_iff)
qed code_simp+

lemma magnitude_sweep:
  "all_bytes (\<lambda>b. \<bar>decode_value b\<bar> = g711_magnitude b)"
  unfolding all_bytes_def
proof (intro conjI)
  show "list_all (\<lambda>i. \<bar>decode_value (word_of_int i)\<bar> = g711_magnitude (word_of_int i)) [2..255]"
    by (simp add: decode_value_def g711_magnitude_def js_ops Let_def push_bit_eq_mult)
qed code_simp+

lemma decode_value_range: "- 32124 \<le> decode_value b" "decode_value b \<le> 32124"
  using all_bytesD [OF decode_value_sweep, of b] by simp_all

lemma decode_value_sign:
  "bit b 7 \<Longrightarrow> 0 \<le> decode_value b" "\<not> bit b 7 \<Longrightarrow> decode_value b \<le> 0"
  using all_bytesD [OF decode_value_sweep, of b] by (simp_all split: if_splits)

lemma decodeSample_eq: "decodeSample b = decode_value b"
  unfolding decodeSample_def
  using decode_value_range [of b] by (intro toInt16_id) linarith+

lemma decode_loop_eq:
  "i \<le> length mulawData \<Longrightarrow> length pcm16 = length mulawData \<Longrightarrow>
   decode_loop i mulawData pcm16 = take i pcm16 @ map decodeSample (drop i mulawData)"
proof (induction i mulawData pcm16 rule: decode_loop.induct)
  case (1 i mulawData pcm16)
  show ?case
  proof (cases "i < length mulawData")
    case True
    let ?v = "decodeSample (mulawData ! i)"
    have "decode_loop i mulawData pcm16 = decode_loop (i + 1) mulawData (pcm16[i := ?v])"
      using True by (subst decode_loop.simps) simp
    also have "\<dots> = take (i + 1) (pcm16[i := ?v]) @ map decodeSample (drop (i + 1) mulawData)"
      using True "1.prems" by (intro "1.IH") simp_all
    also have "take (i + 1) (pcm16[i := ?v]) = take i pcm16 @ [?v]"
      using True "1.prems" by (simp add: take_Suc_conv_app_nth)
    also have "drop i mulawData = mulawData ! i # drop (i + 1) mulawData"
      using True by (simp add: Cons_nth_drop_Suc)
    then have "(take i pcm16 @ [?v]) @ map decodeSample (drop (i + 1) mulawData)
             = take i pcm16 @ map decodeSample (drop i mulawData)"
      by simp
    finally show ?thesis .
  next
    case False
    with "1.prems" show ?thesis by (subst decode_loop.simps) simp
  qed
qed

lemma decodeMuLawToPCM16_map: "decodeMuLawToPCM16 mulawData = map decodeSample mulawData"
  by (simp add: decodeMuLawToPCM16_def decode_loop_eq)

section \<open>Facts about the packing\<close>

lemma writeInt16LE_ok:
  "- 32768 \<le> v \<Longrightarrow> v \<le> 32767 \<Longrightarrow> off + 2 \<le> length buf \<Longrightarrow>
   writeInt16LE buf v off = Inr (buf[off := word_of_int v, off + 1 := word_of_int (v div 256)])"
  by (simp add: writeInt16LE_def)

lemma take_two_updates:
  "n + 2 \<le> length buf \<Longrightarrow> take (n + 2) (buf[n := a, n + 1 := b]) = take n buf @ [a, b]"
proof -
  assume len: "n + 2 \<le> length buf"
  have "take (Suc (Suc n)) (buf[n := a, Suc n := b])
      = take (Suc n) (buf[n := a, Suc n := b]) @ [buf[n := a, Suc n := b] ! Suc n]"
    using len by (intro take_Suc_conv_app_nth) simp
  also have "take (Suc n) (buf[n := a, Suc n := b]) = take n (buf[n := a, Suc n := b]) @ [buf[n := a, Suc n := b] ! n]"
    using len by (intro take_Suc_conv_app_nth) simp
  finally show ?thesis
    using len by simp
qed

lemma pack_loop_eq:
  "i \<le> length pcm16 \<Longrightarrow> length buf = 2 * length pcm16 \<Longrightarrow>
   list_all (\<lambda>v. - 32768 \<le> v \<and> v \<le> 32767) pcm16 \<Longrightarrow>
   pack_loop i pcm16 buf = Inr (take (2 * i) buf @ concat (map le16 (drop i pcm16)))"
proof (induction i pcm16 buf rule: pack_loop.induct)
  case (1 i pcm16 buf)
  show ?case
  proof (cases "i < length pcm16")
    case True
    let ?v = "pcm16 ! i"
    let ?buf' = "buf[i * 2 := word_of_int ?v, i * 2 + 1 := word_of_int (?v div 256)]"
    have rng: "- 32768 \<le> ?v" "?v \<le> 32767"
      using True "1.prems"(3) by (simp_all add: list_all_length)
    have room: "i * 2 + 2 \<le> length buf"
      using True "1.prems"(2) by simp
    have w: "writeInt16LE buf ?v (i * 2) = Inr ?buf'"
      using rng room by (rule writeInt16LE_ok)
    have "pack_loop i pcm16 buf = pack_loop (i + 1) pcm16 ?buf'"
      using True w by (subst pack_loop.simps) simp
    also have "\<dots> = Inr (take (2 * (i + 1)) ?buf' @ concat (map le16 (drop (i + 1) pcm16)))"
      using True w "1.prems" by (intro "1.IH") simp_all
    also have "take (2 * (i + 1)) ?buf' = take (i * 2) buf @ le16 ?v"
      using take_two_updates [OF room] by (simp add: le16_def mult.commute)
    also have "drop i pcm16 = ?v # drop (i + 1) pcm16"
      using True by (simp add: Cons_nth_drop_Suc)
    then have "(take (i * 2) buf @ le16 ?v) @ concat (map le16 (drop (i + 1) pcm16))
             = take (2 * i) buf @ concat (map le16 (drop i pcm16))"
      by (simp add: mult.commute)
    finally show ?thesis .
  next
    case False
    with "1.prems" show ?thesis
      by (subst pack_loop.simps) simp
  qed
qed

lemma length_concat_le16: "length (concat (map le16 vs)) = 2 * length vs"
  by (induction vs) (simp_all add: le16_def)

lemma pack_decoded:
  "pack_loop 0 (decodeMuLawToPCM16 ulaw) (allocUnsafe j (length (decodeMuLawToPCM16 ulaw) * 2))
   = Inr (concat (map le16 (map decodeSample ulaw)))"
proof -
  have "list_all (\<lambda>v. - 32768 \<le> v \<and> v \<le> 32767) (map decodeSample ulaw)"
    unfolding list_all_iff
  proof
    fix v assume "v \<in> set (map decodeSample ulaw)"
    then obtain b where "v = decodeSample b" by auto
    then show "- 32768 \<le> v \<and> v \<le> 32767"
      using decode_value_range [of b] by (simp add: decodeSample_eq)
  qed
  then show ?thesis
    by (simp add: decodeMuLawToPCM16_map pack_loop_eq allocUnsafe_def)
qed

lemma length_pcm_bytes: "length (pcm_bytes ulaw) = 2 * length ulaw"
  by (induction ulaw) (simp_all add: pcm_bytes_def le16_def)

lemma on_media_written:
  assumes "pushStream s = Some p"
      and "get data ''media'' = Inr m"
      and "opt_get m ''payload'' = Some payload"
      and "truthy (Some payload)"
      and "bufferFrom env payload = Inr ulaw"
  shows "on_media env data s w = invoke env (PushWrite p (pcm_bytes ulaw)) s w"
  using assms pack_decoded [of ulaw "junk env"]
  by (simp add: on_media_def pcm_bytes_def map_map comp_def Let_def)

lemma le16_value:
  "uint (le16 v ! 0) + 256 * uint (le16 v ! 1) = v mod 65536"
proof -
  have "v mod (256 * 256) = 256 * (v div 256 mod 256) + v mod 256"
    using mod_mult2_eq' [of v 256 256] by simp
  then show ?thesis
    by (simp add: le16_def uint_word_of_int_eq take_bit_eq_mod)
qed

section \<open>Facts about the handlers\<close>

lemmas handler_defs =
  on_message_def on_start_def on_media_def on_stop_def startRecognizer_def invoke_def say_def
  on_close_def try_catch_def pushStream_close_def rec_stop_def on_stop_success_def
  on_stop_failure_def recognizing_def recognized_def fetch_settled_def result_text_def

lemmas sample_defs =
  sample_env_def sample_bufferFrom_def start_msg_def media_msg_def start_data_def media_data_def
  init_session_def init_world_def

lemmas trace_defs =
  made_def times_called_def live_recognizers_def forwarded_def fed_def List.map_filter_def

lemma unparsable_discarded: "on_message env None s w = (Done, s, w)"
  by (simp add: on_message_def)

lemma unknown_event_discarded:
  "get data ''event'' = Inr ev \<Longrightarrow> ev \<noteq> Some (JStr ''start'') \<Longrightarrow> ev \<noteq> Some (JStr ''media'')
   \<Longrightarrow> ev \<noteq> Some (JStr ''stop'') \<Longrightarrow> on_message env (Some data) s w = (Done, s, w)"
  by (simp add: on_message_def)







lemma forwarded_say: "forwarded (say l w) = forwarded w"
  by (simp add: forwarded_def made_def say_def)

lemma invoke_forwarded:
  "\<not> is_Fetch c \<Longrightarrow> invoke env c s w = (out, s', w') \<Longrightarrow>
   lastSentTime s' = lastSentTime s \<and> forwarded w' = forwarded w"
  by (auto simp add: invoke_def forwarded_def made_def Let_def)

lemma startRecognizer_forwarded:
  assumes "startRecognizer env s w = (out, s', w')"
  shows "lastSentTime s' = lastSentTime s \<and> forwarded w' = forwarded w"
proof -
  obtain o1 s1 w1 where a: "invoke env (CreatePushStream (length (calls w))) s w = (o1, s1, w1)"
    by (cases "invoke env (CreatePushStream (length (calls w))) s w") auto
  have k1: "lastSentTime s1 = lastSentTime s \<and> forwarded w1 = forwarded w"
    using invoke_forwarded [OF _ a] by simp
  show ?thesis
  proof (cases o1)
    case (Raised e)
    with a assms k1 show ?thesis by (simp add: startRecognizer_def Let_def)
  next
    case Done
    let ?s2 = "s1\<lparr>pushStream := Some (length (calls w))\<rparr>"
    obtain o3 s3 w3 where b:
      "invoke env (NewRecognizer (length (calls w1)) (length (calls w))) ?s2 w1 = (o3, s3, w3)"
      by (cases "invoke env (NewRecognizer (length (calls w1)) (length (calls w))) ?s2 w1") auto
    have k3: "lastSentTime s3 = lastSentTime s \<and> forwarded w3 = forwarded w"
      using invoke_forwarded [OF _ b] k1 by simp
    show ?thesis
    proof (cases o3)
      case (Raised e)
      with Done a b assms k3 show ?thesis by (simp add: startRecognizer_def Let_def)
    next
      case d3: Done
      have "invoke env (StartContinuous (length (calls w1))) (s3\<lparr>rec := Some (length (calls w1))\<rparr>) w3
            = (out, s', w')"
        using Done d3 a b assms by (simp add: startRecognizer_def Let_def)
      from invoke_forwarded [OF _ this] k3 show ?thesis by simp
    qed
  qed
qed

lemma message_forwarded:
  assumes "on_message env parsed s w = (out, s', w')"
  shows "lastSentTime s' = lastSentTime s \<and> forwarded w' = forwarded w"
proof (cases parsed)
  case None
  with assms show ?thesis by (simp add: on_message_def)
next
  case (Some data)
  show ?thesis
  proof (cases "get data ''event''")
    case (Inl e)
    with Some assms show ?thesis by (simp add: on_message_def)
  next
    case (Inr ev)
    consider (start) "ev = Some (JStr ''start'')" | (media) "ev = Some (JStr ''media'')"
      | (stop) "ev = Some (JStr ''stop'')"
      | (other) "ev \<noteq> Some (JStr ''start'')" "ev \<noteq> Some (JStr ''media'')" "ev \<noteq> Some (JStr ''stop'')"
      by blast
    then show ?thesis
    proof cases
      case start
      with Some Inr assms have st: "on_start env data s w = (out, s', w')"
        by (simp add: on_message_def)
      show ?thesis
      proof (cases "get data ''start''")
        case (Inl e)
        with st show ?thesis by (simp add: on_start_def)
      next
        case (Inr v)
        with st startRecognizer_forwarded
          [of env "s\<lparr>callSid := or_empty (opt_get v ''callSid'')\<rparr>"
              "say (LogStreamStarted (or_empty (opt_get v ''callSid''))) w" out s' w']
        show ?thesis by (simp add: on_start_def Let_def forwarded_say)
      qed
    next
      case media
      with Some Inr assms have m: "on_media env data s w = (out, s', w')"
        by (simp add: on_message_def)
      then show ?thesis
        by (auto simp add: on_media_def Let_def split: option.splits sum.splits if_splits
            dest!: invoke_forwarded [rotated])
    next
      case stop
      with Some Inr assms have "invoke env WsClose s (say LogStopReceived w) = (out, s', w')"
        by (simp add: on_message_def on_stop_def)
      from invoke_forwarded [OF _ this] show ?thesis by (simp add: forwarded_say)
    next
      case other
      with Some Inr assms show ?thesis by (simp add: on_message_def)
    qed
  qed
qed

lemma close_forwarded:
  assumes "on_close env s w = (out, s', w')"
  shows "lastSentTime s' = lastSentTime s \<and> forwarded w' = forwarded w"
  using assms
  by (auto simp add: on_close_def try_catch_def pushStream_close_def rec_stop_def invoke_def
      forwarded_def made_def say_def Let_def split: option.splits)

lemma step_keeps_debounce:
  assumes "lastSentTime s = sent" and "not_accepted sent i" and "step env i s w = (out, s', w')"
  shows "lastSentTime s' = sent \<and> forwarded w' = forwarded w"
proof (cases i)
  case (Message parsed)
  with assms message_forwarded [of env parsed s w out s' w'] show ?thesis by simp
next
  case Close
  with assms close_forwarded [of env s w out s' w'] show ?thesis by simp
next
  case (Recognizing e)
  with assms show ?thesis
    by (auto simp add: recognizing_def forwarded_say split: option.splits if_splits)
next
  case (Recognized e now stamp)
  with assms show ?thesis
    by (auto simp add: recognized_def forwarded_say Let_def split: option.splits if_splits)
next
  case (FetchSettled fo)
  with assms show ?thesis
    by (auto simp add: fetch_settled_def forwarded_say split: fetch_outcome.splits)
next
  case StopSucceeded
  with assms show ?thesis
    by (auto simp add: on_stop_success_def split: option.splits dest!: invoke_forwarded [rotated])
next
  case StopFailed
  with assms show ?thesis
    by (auto simp add: on_stop_failure_def split: option.splits dest!: invoke_forwarded [rotated])
qed

lemma run_keeps_debounce:
  "lastSentTime s = sent \<Longrightarrow> list_all (not_accepted sent) inputs \<Longrightarrow>
   run env inputs s w = (out, s', w') \<Longrightarrow> lastSentTime s' = sent \<and> forwarded w' = forwarded w"
proof (induction inputs arbitrary: s w)
  case Nil
  then show ?case by simp
next
  case (Cons i inputs)
  obtain o1 s1 w1 where st: "step env i s w = (o1, s1, w1)"
    by (cases "step env i s w") auto
  have keep: "lastSentTime s1 = sent \<and> forwarded w1 = forwarded w"
    using Cons.prems(1,2) st by (intro step_keeps_debounce [of s sent i env w o1 s1 w1]) simp_all
  show ?case
  proof (cases o1)
    case Done
    with st Cons.prems(3) have "run env inputs s1 w1 = (out, s', w')"
      by simp
    with Cons.IH [of s1 w1] Cons.prems(2) keep show ?thesis
      by simp
  next
    case (Raised e)
    with st Cons.prems(3) keep show ?thesis
      by simp
  qed
qed

section \<open>The claims\<close>

text \<open>
  C1, as the code has it: for every input byte whose top bit is set, the decoder returns
  a sample that is not negative, between 0 and 32124. The sign test is made on the
  inverted byte, so a set top bit of the input selects the branch \<open>t - 0x84\<close>.
\<close>

theorem decode_top_bit_set_nonneg:
  "bit b 7 \<Longrightarrow> 0 \<le> decodeSample b \<and> decodeSample b \<le> 32124"
  using decode_value_sign(1) [of b] decode_value_range(2) [of b]
  by (simp add: decodeSample_eq)

theorem decode_top_bit_set_nonneg_witness:
  "bit (0xFF :: byte) 7 \<and> 0 \<le> decodeSample 0xFF \<and> decodeSample 0xFF \<le> 32124"
  using decode_top_bit_set_nonneg [of "0xFF"] by (simp add: bit_numeral_word_iff)

text \<open>
  C1, as the specification words it, fails: the byte \<open>0x80\<close> has its top bit set and
  decodes to the largest positive sample.
\<close>

theorem decode_top_bit_set_negative_counterexample:
  "bit (0x80 :: byte) 7 \<and> \<not> decodeSample 0x80 < 0"
  by (simp add: decodeSample_def decode_value_def toInt16_def js_ops Let_def bit_numeral_word_iff)

text \<open>
  C2 fails on the code. A \<^verbatim>\<open>start\<close> message always runs \<^verbatim>\<open>startRecognizer\<close>, which makes a
  new push stream and a new recognizer and overwrites both variables; nothing stops or
  closes what they held. After two \<^verbatim>\<open>start\<close> messages two recognizers (numbers 1 and 4)
  have been created and started and none has been stopped or closed, while the session
  only knows the second. Teardown then reaches the second only: the first recognizer is
  never stopped or closed, and its push stream is never closed.
\<close>

theorem second_start_leaves_two_recognizers:
  "(case run (sample_env ''https://n8n.example/hook'') [start_msg ''CA123'', start_msg ''CA123'']
           init_session init_world of
      (out, s, w) \<Rightarrow> out = Done \<and> rec s = Some 4 \<and> pushStream s = Some 3
        \<and> live_recognizers w = [1, 4] \<and> times_called (StopContinuous 1) w = 0)
   \<and> (case run (sample_env ''https://n8n.example/hook'')
             [start_msg ''CA123'', start_msg ''CA123'', Close, StopSucceeded]
             init_session init_world of
        (out, s, w) \<Rightarrow> out = Done \<and> live_recognizers w = [1]
          \<and> times_called (StopContinuous 1) w = 0 \<and> times_called (PushClose 0) w = 0)"
  by (simp add: handler_defs sample_defs trace_defs Let_def)

text \<open>
  C3, as the code has it: take two final results with text, the first of which passes the
  debounce test, and between them any events of the connection among which no further
  final result is accepted. The first sets the timestamp to its time in the handler run
  that issues the request, before the request has ended, and the timestamp stays so up to
  the second. If the second comes less than 2000 ms after the first it changes neither
  the session nor the calls made (it is only logged); otherwise it is accepted and sets
  the timestamp. An accepted result is posted to the webhook when a URL is configured and
  is not posted otherwise. The end of a request, good or bad, changes neither the session
  nor the calls: nothing is queued or retried.
\<close>

theorem debounce_two_finals:
  assumes "t1 \<noteq> []" and "t2 \<noteq> []"
      and "\<not> now1 - lastSentTime s < 2000"
      and "list_all (not_accepted now1) between"
  shows "(case step env (Recognized (Some (Some t1)) now1 stamp1) s w of
            (out1, s1, w1) \<Rightarrow>
              out1 = Done \<and> lastSentTime s1 = now1
              \<and> forwarded w1 = forwarded w @ posts env (callSid s) t1 stamp1
              \<and> (case run env between s1 w1 of
                    (outb, sb, wb) \<Rightarrow>
                      lastSentTime sb = now1 \<and> forwarded wb = forwarded w1
                      \<and> (case step env (Recognized (Some (Some t2)) now2 stamp2) sb wb of
                            (out2, s2, w2) \<Rightarrow>
                              out2 = Done
                              \<and> (if now2 - now1 < 2000
                                  then s2 = sb \<and> calls w2 = calls wb
                                  else lastSentTime s2 = now2
                                    \<and> forwarded w2 = forwarded wb @ posts env (callSid sb) t2 stamp2)
                              \<and> fst (snd (step env (FetchSettled fo) s2 w2)) = s2
                              \<and> calls (snd (snd (step env (FetchSettled fo) s2 w2))) = calls w2)))"
proof -
  obtain out1 s1 w1 where st1: "step env (Recognized (Some (Some t1)) now1 stamp1) s w = (out1, s1, w1)"
    by (cases "step env (Recognized (Some (Some t1)) now1 stamp1) s w") auto
  have f1: "out1 = Done \<and> lastSentTime s1 = now1
            \<and> forwarded w1 = forwarded w @ posts env (callSid s) t1 stamp1"
    using st1 assms(1,3)
    by (auto simp add: recognized_def result_text_def say_def forwarded_def made_def posts_def Let_def
        split: if_splits)
  obtain outb sb wb where rb: "run env between s1 w1 = (outb, sb, wb)"
    by (cases "run env between s1 w1") auto
  have kb: "lastSentTime sb = now1 \<and> forwarded wb = forwarded w1"
    using f1 assms(4) rb by (intro run_keeps_debounce [of s1 now1 between env w1 outb sb wb]) simp_all
  obtain out2 s2 w2 where st2: "step env (Recognized (Some (Some t2)) now2 stamp2) sb wb = (out2, s2, w2)"
    by (cases "step env (Recognized (Some (Some t2)) now2 stamp2) sb wb") auto
  have f2: "out2 = Done
            \<and> (if now2 - now1 < 2000
                then s2 = sb \<and> calls w2 = calls wb
                else lastSentTime s2 = now2
                  \<and> forwarded w2 = forwarded wb @ posts env (callSid sb) t2 stamp2)"
    using st2 assms(2) kb
    by (auto simp add: recognized_def result_text_def say_def forwarded_def made_def posts_def Let_def
        split: if_splits)
  have f3: "fst (snd (step env (FetchSettled fo) s2 w2)) = s2
            \<and> calls (snd (snd (step env (FetchSettled fo) s2 w2))) = calls w2"
    by (simp add: fetch_settled_def say_def split: fetch_outcome.splits)
  show ?thesis
    using st1 rb st2 f1 kb f2 f3 by simp
qed

theorem debounce_two_finals_witness:
  "run (sample_env ''https://n8n.example/hook'') [start_msg ''CA123''] init_session init_world
     = (Done, started_session, started_world)
   \<and> ''hello'' \<noteq> [] \<and> ''again'' \<noteq> []
   \<and> \<not> 1700000000000 - lastSentTime started_session < 2000
   \<and> list_all (not_accepted 1700000000000)
        [Recognizing (Some (Some ''hel'')), Recognized (Some (Some ''hello'')) 1700000000500 ''s2'',
         FetchSettled FetchOk]
   \<and> (case run (sample_env ''https://n8n.example/hook'')
              ([Recognized (Some (Some ''hello'')) 1700000000000 ''s1'',
                Recognizing (Some (Some ''hel'')), Recognized (Some (Some ''hello'')) 1700000000500 ''s2'',
                FetchSettled FetchOk,
                Recognized (Some (Some ''again'')) 1700000001999 ''s3''])
              started_session started_world of
        (out, s, w) \<Rightarrow> out = Done \<and> lastSentTime s = 1700000000000
          \<and> forwarded w = [Fetch ''https://n8n.example/hook'' (JStr ''CA123'') ''hello'' ''s1''])"
proof -
  have h0: "run (sample_env ''https://n8n.example/hook'') [start_msg ''CA123''] init_session init_world
     = (Done, started_session, started_world)"
    by (simp add: handler_defs sample_defs started_session_def started_world_def Let_def)
  have h1: "''hello'' \<noteq> []" and h2: "''again'' \<noteq> []"
    by simp_all
  have h3: "\<not> 1700000000000 - lastSentTime started_session < 2000"
    by (simp add: started_session_def)
  have h4: "list_all (not_accepted 1700000000000)
        [Recognizing (Some (Some ''hel'')), Recognized (Some (Some ''hello'')) 1700000000500 ''s2'',
         FetchSettled FetchOk]"
    by (simp add: result_text_def)
  from debounce_two_finals [OF h1 h2 h3 h4, where env = "sample_env ''https://n8n.example/hook''"
      and ?stamp1.0 = "''s1''" and w = started_world and ?now2.0 = 1700000001999
      and ?stamp2.0 = "''s3''" and fo = FetchOk]
  have "(case run (sample_env ''https://n8n.example/hook'')
              ([Recognized (Some (Some ''hello'')) 1700000000000 ''s1'',
                Recognizing (Some (Some ''hel'')), Recognized (Some (Some ''hello'')) 1700000000500 ''s2'',
                FetchSettled FetchOk,
                Recognized (Some (Some ''again'')) 1700000001999 ''s3''])
              started_session started_world of
        (out, s, w) \<Rightarrow> out = Done \<and> lastSentTime s = 1700000000000
          \<and> forwarded w = [Fetch ''https://n8n.example/hook'' (JStr ''CA123'') ''hello'' ''s1''])"
    by (simp add: handler_defs sample_defs trace_defs posts_def started_session_def started_world_def
        Let_def)
  with h0 h1 h2 h3 h4 show ?thesis
    by blast
qed

text \<open>
  C3, as the specification words it, fails in two ways. Without a webhook URL, two final
  results 5000 ms apart both pass the debounce test and neither is forwarded. With a URL,
  of three final results at 0, 2000 and 2500 ms the third comes 2500 ms after the first
  accepted send and is dropped all the same, because the second was accepted in between.
\<close>

theorem debounce_any_two_forwarded_counterexample:
  "(case run (sample_env [])
           [start_msg ''CA123'',
            Recognized (Some (Some ''hello'')) 1700000000000 ''s1'',
            Recognized (Some (Some ''again'')) 1700000005000 ''s2'']
           init_session init_world of
      (out, s, w) \<Rightarrow> out = Done \<and> lastSentTime s = 1700000005000 \<and> forwarded w = [])
   \<and> (case run (sample_env ''https://n8n.example/hook'')
           [start_msg ''CA123'',
            Recognized (Some (Some ''one'')) 1700000000000 ''s1'',
            Recognized (Some (Some ''two'')) 1700000002000 ''s2'',
            Recognized (Some (Some ''three'')) 1700000002500 ''s3'']
           init_session init_world of
      (out, s, w) \<Rightarrow> out = Done
        \<and> forwarded w = [Fetch ''https://n8n.example/hook'' (JStr ''CA123'') ''one'' ''s1'',
                          Fetch ''https://n8n.example/hook'' (JStr ''CA123'') ''two'' ''s2''])"
  by (simp add: handler_defs sample_defs trace_defs Let_def)

text \<open>
  C4: for every input byte the magnitude of the decoded sample is the G.711 expansion
  \<open>(((mantissa << 3) + 0x84) << exponent) - 0x84\<close> of the inverted byte, and the decoder
  maps a buffer to the list of its bytes' samples: it has a result for each of the 256
  byte values, and the result depends on the byte alone.
\<close>

theorem decode_is_g711_expansion:
  "\<bar>decodeSample b\<bar> = g711_magnitude b
   \<and> decodeMuLawToPCM16 mulawData = map decodeSample mulawData"
  using all_bytesD [OF magnitude_sweep, of b]
  by (simp add: decodeSample_eq decodeMuLawToPCM16_map)

text \<open>
  C5: a \<^verbatim>\<open>media\<close> message handled while a push stream exists, whose payload is truthy and
  decodes to the bytes \<open>ulaw\<close>, makes exactly one call, a write to that push stream, of
  a buffer of twice as many bytes: the decoded samples in input order, each as two bytes,
  low byte first.
\<close>

theorem media_frame_written:
  assumes "get data ''event'' = Inr (Some (JStr ''media''))"
      and "pushStream s = Some p"
      and "get data ''media'' = Inr m"
      and "opt_get m ''payload'' = Some payload"
      and "truthy (Some payload)"
      and "bufferFrom env payload = Inr ulaw"
  shows "length (pcm_bytes ulaw) = 2 * length ulaw
       \<and> on_message env (Some data) s w = invoke env (PushWrite p (pcm_bytes ulaw)) s w
       \<and> made (snd (snd (on_message env (Some data) s w))) = made w @ [PushWrite p (pcm_bytes ulaw)]"
proof -
  have "on_message env (Some data) s w = on_media env data s w"
    using assms(1) by (simp add: on_message_def)
  also have "\<dots> = invoke env (PushWrite p (pcm_bytes ulaw)) s w"
    using assms(2-6) by (rule on_media_written)
  finally show ?thesis
    by (simp add: length_pcm_bytes invoke_def made_def Let_def)
qed

theorem media_frame_written_witness:
  "get (media_data ''/4A='') ''event'' = Inr (Some (JStr ''media''))
   \<and> pushStream (init_session\<lparr>pushStream := Some 0\<rparr>) = Some 0
   \<and> get (media_data ''/4A='') ''media'' = Inr (Some (JObj [(''payload'', JStr ''/4A='')]))
   \<and> opt_get (Some (JObj [(''payload'', JStr ''/4A='')])) ''payload'' = Some (JStr ''/4A='')
   \<and> truthy (Some (JStr ''/4A=''))
   \<and> bufferFrom (sample_env []) (JStr ''/4A='') = Inr [0xFF, 0x80]
   \<and> length (pcm_bytes [0xFF, 0x80]) = 2 * length [0xFF, 0x80 :: byte]
   \<and> made (snd (snd (on_message (sample_env []) (Some (media_data ''/4A=''))
         (init_session\<lparr>pushStream := Some 0\<rparr>) init_world)))
     = made init_world @ [PushWrite 0 (pcm_bytes [0xFF, 0x80])]"
proof -
  have h1: "get (media_data ''/4A='') ''event'' = Inr (Some (JStr ''media''))"
    by (simp add: media_data_def)
  have h2: "pushStream (init_session\<lparr>pushStream := Some 0\<rparr>) = Some 0"
    by simp
  have h3: "get (media_data ''/4A='') ''media'' = Inr (Some (JObj [(''payload'', JStr ''/4A='')]))"
    by (simp add: media_data_def)
  have h4: "opt_get (Some (JObj [(''payload'', JStr ''/4A='')])) ''payload'' = Some (JStr ''/4A='')"
    by simp
  have h5: "truthy (Some (JStr ''/4A=''))"
    by simp
  have h6: "bufferFrom (sample_env []) (JStr ''/4A='') = Inr [0xFF, 0x80]"
    by (simp add: sample_env_def sample_bufferFrom_def)
  from media_frame_written [OF h1 h2 h3 h4 h5 h6, of init_world] h1 h2 h3 h4 h5 h6
  show ?thesis
    by blast
qed





text \<open>
  C8 fails on the code for the text frame \<^verbatim>\<open>null\<close>: it parses, to \<^verbatim>\<open>null\<close>, and the read of
  \<^verbatim>\<open>data.event\<close>, which is outside the \<^verbatim>\<open>try\<close>, raises a type error out of the handler.
\<close>

theorem null_message_raises:
  "on_message env (Some JNull) s w = (Raised TypeError, s, w)"
  by (simp add: on_message_def)

text \<open>
  C9: the handler of interim results returns normally and changes neither the session
  (so not the debounce timestamp) nor the calls made (so nothing is posted to the
  webhook), whatever the result holds.
\<close>

theorem recognizing_forwards_nothing:
  "fst (step env (Recognizing e) s w) = Done
   \<and> fst (snd (step env (Recognizing e) s w)) = s
   \<and> calls (snd (snd (step env (Recognizing e) s w))) = calls w
   \<and> forwarded (snd (snd (step env (Recognizing e) s w))) = forwarded w
   \<and> lastSentTime (fst (snd (step env (Recognizing e) s w))) = lastSentTime s"
  by (simp add: recognizing_def say_def forwarded_def made_def split: option.splits)

text \<open>
  C10: the value computed for a byte lies in \<open>[-32124, 32124]\<close>, and storing it in the
  16-bit array gives back the same value: the store neither wraps nor truncates.
\<close>

theorem decode_fits_int16:
  "- 32124 \<le> decode_value b \<and> decode_value b \<le> 32124
   \<and> toInt16 (decode_value b) = decode_value b
   \<and> - 32124 \<le> decodeSample b \<and> decodeSample b \<le> 32124"
  using decode_value_range [of b] decodeSample_eq [of b]
  by (simp add: decodeSample_def)

end
